theory Spec2Isabelle
  imports Complex_Main "HOL-Library.Log_Nat"
begin

section \<open>Files and directory trees\<close>

text \<open>
  A path is the list of its segments, relative to the directory it is resolved in
  (\<open>original_assets\<close> or \<open>new_assets\<close> of one pack). The serialized path stored in the
  assignment table and in the footer of the delivery message is \<open>as_posix()\<close> of that
  relative path; it is kept here as the segment list it joins.

  A file's content is reduced to what the code inspects: an image to its pixel size, a
  sound to its channel count and frame rate, anything else to its text.
\<close>

type_synonym path = "string list"

datatype media = Picture nat nat | Sound nat nat | Data string

datatype node = File media | Dir "(string \<times> node) list"

datatype error =
    FileNotFoundError
  | FileExistsError
  | IsADirectoryError
  | NotADirectoryError
  | UnidentifiedImageError
  | CouldntDecodeError
  | ZeroDivisionError
  | AttributeError
  | ValueError string

fun lookup :: "node \<Rightarrow> path \<Rightarrow> node option" where
  "lookup n [] = Some n"
| "lookup (File m) (s # p) = None"
| "lookup (Dir es) (s # p) = (case map_of es s of None \<Rightarrow> None | Some c \<Rightarrow> lookup c p)"

definition is_file :: "node option \<Rightarrow> bool" where
  "is_file n = (case n of Some (File m) \<Rightarrow> True | _ \<Rightarrow> False)"

text \<open>\<open>root.rglob("*")\<close>: every entry below the root, with the node found there.\<close>

fun rglob :: "node \<Rightarrow> (path \<times> node) list" where
  "rglob (File m) = []"
| "rglob (Dir es) =
     concat (map (\<lambda>e. ([fst e], snd e) # map (\<lambda>r. (fst e # fst r, snd r)) (rglob (snd e))) es)"

text \<open>\<open>path.unlink()\<close> of a regular file below the root.\<close>

fun unlink :: "path \<Rightarrow> node \<Rightarrow> node" where
  "unlink [] n = n"
| "unlink (s # p) (File m) = File m"
| "unlink [s] (Dir es) = Dir (filter (\<lambda>e. fst e \<noteq> s) es)"
| "unlink (s # p) (Dir es) = Dir (map (\<lambda>e. if fst e = s then (s, unlink p (snd e)) else e) es)"

text \<open>
  \<open>new_path.parent.mkdir(parents=True, exist_ok=True)\<close> followed by opening
  \<open>new_path\<close> for writing. Missing directories are created. \<open>mkdir\<close> raises
  \<open>FileExistsError\<close> when the parent is a regular file and \<open>NotADirectoryError\<close> when
  a higher ancestor is one; opening a directory raises \<open>IsADirectoryError\<close>.
\<close>

fun put :: "string \<Rightarrow> node \<Rightarrow> (string \<times> node) list \<Rightarrow> (string \<times> node) list" where
  "put s c [] = [(s, c)]"
| "put s c (e # es) = (if fst e = s then (s, c) # es else e # put s c es)"

fun write_file :: "path \<Rightarrow> media \<Rightarrow> node \<Rightarrow> error + node" where
  "write_file [] m (File x) = Inr (File m)"
| "write_file [] m (Dir es) = Inl IsADirectoryError"
| "write_file [s] m (File x) = Inl FileExistsError"
| "write_file (s # p) m (File x) = Inl NotADirectoryError"
| "write_file [s] m (Dir es) =
     (case map_of es s of
        Some (Dir ds) \<Rightarrow> Inl IsADirectoryError
      | _ \<Rightarrow> Inr (Dir (put s (File m) es)))"
| "write_file (s # p) m (Dir es) =
     (case write_file p m (case map_of es s of None \<Rightarrow> Dir [] | Some c \<Rightarrow> c) of
        Inl e \<Rightarrow> Inl e
      | Inr c \<Rightarrow> Inr (Dir (put s c es)))"

section \<open>The asset catalog\<close>

fun rfind :: "char \<Rightarrow> string \<Rightarrow> nat option" where
  "rfind c [] = None"
| "rfind c (x # xs) =
     (case rfind c xs of
        Some i \<Rightarrow> Some (Suc i)
      | None \<Rightarrow> if x = c then Some 0 else None)"

text \<open>\<open>PurePath.suffix\<close>: the last dot of the final segment onwards, unless that dot
  starts or ends the name.\<close>

definition suffix :: "path \<Rightarrow> string" where
  "suffix p =
     (if p = [] then []
      else case rfind (CHR ''.'') (last p) of
             None \<Rightarrow> []
           | Some i \<Rightarrow> if 0 < i \<and> i < length (last p) - 1 then drop i (last p) else [])"

definition get_resources :: "node \<Rightarrow> path list" where
  "get_resources rootdir = map fst (filter (\<lambda>r. is_file (Some (snd r))) (rglob rootdir))"

definition get_sounds :: "node \<Rightarrow> path list" where
  "get_sounds rootdir = filter (\<lambda>p. suffix p = ''.ogg'') (get_resources rootdir)"

definition get_textures :: "node \<Rightarrow> path list" where
  "get_textures rootdir =
     (case lookup rootdir [''assets'', ''minecraft''] of
        Some (Dir es) \<Rightarrow>
          map (\<lambda>p. ''assets'' # ''minecraft'' # p)
            (filter (\<lambda>p. suffix p = ''.png'') (get_resources (Dir es)))
      | _ \<Rightarrow> filter (\<lambda>p. suffix p = ''.png'') (get_resources rootdir))"

text \<open>
  \<open>"models" in path.parents\<close>: \<open>path.parents\<close> is the sequence of the path's ancestors,
  each a path object, and \<open>in\<close> compares the string with each of them by \<open>==\<close>. A path
  object's \<open>__eq__\<close> answers only to another path object, so a string and a path are
  never equal. The paths the generator yields are \<open>root / relative\<close>, so the location
  of the root is an argument.
\<close>

datatype pyval = PyStr string | PyPath path

fun py_eq :: "pyval \<Rightarrow> pyval \<Rightarrow> bool" where
  "py_eq (PyStr a) (PyStr b) = (a = b)"
| "py_eq (PyPath a) (PyPath b) = (a = b)"
| "py_eq (PyStr a) (PyPath b) = False"
| "py_eq (PyPath a) (PyStr b) = False"

definition parents :: "path \<Rightarrow> path list" where
  "parents p = map (\<lambda>n. take n p) (rev [0..<length p])"

definition py_in :: "pyval \<Rightarrow> pyval list \<Rightarrow> bool" where
  "py_in v xs = list_ex (py_eq v) xs"

definition get_models :: "path \<Rightarrow> node \<Rightarrow> path list" where
  "get_models location rootdir =
     filter (\<lambda>p. suffix p = ''.json'' \<and> py_in (PyStr ''models'') (map PyPath (parents (location @ p))))
       (get_resources rootdir)"

section \<open>Python's float arithmetic\<close>

text \<open>
  \<open>process_image\<close> mixes integers and floats: \<open>a / b\<close> on two ints is the quotient
  rounded to the nearest double (ties to even), \<open>x // b\<close> on a float and an int converts
  the int to a double and takes the floor of the quotient, and \<open>round\<close> of a float is
  the nearest integer (ties to even). A double is represented by the rational it
  denotes; \<open>fl\<close> rounds a rational to 53 significant bits. The exponent range of a
  double is not bounded here: the quotients of image sizes stay far inside it. The
  floor of \<open>//\<close> is taken of the exact quotient of the two doubles, which is what
  CPython returns as long as that floor is below \<open>2 ^ 53\<close>.
\<close>

definition binade :: "rat \<Rightarrow> int" where
  "binade x =
     (let (p, q) = quotient_of x; d = bitlen p - bitlen q
      in if 2 powi d \<le> x then d else d - 1)"

definition round_half_even :: "rat \<Rightarrow> int" where
  "round_half_even x =
     (let f = \<lfloor>x\<rfloor>; r = x - of_int f
      in if r < 1 / 2 then f else if 1 / 2 < r then f + 1 else if even f then f else f + 1)"

definition fl :: "rat \<Rightarrow> rat" where
  "fl x =
     (if x = 0 then 0
      else let u = 2 powi (binade \<bar>x\<bar> - 52)
           in sgn x * of_int (round_half_even (\<bar>x\<bar> / u)) * u)"

text \<open>\<open>a / b\<close> for ints with \<open>b \<noteq> 0\<close>; the caller raises on \<open>b = 0\<close>.\<close>

definition true_div :: "int \<Rightarrow> int \<Rightarrow> rat" where
  "true_div a b = fl (of_int a / of_int b)"

text \<open>\<open>x // b\<close> for a float \<open>x\<close> and an int \<open>b\<close>: an integral float.\<close>

definition float_floordiv :: "rat \<Rightarrow> int \<Rightarrow> rat" where
  "float_floordiv x b = of_int \<lfloor>x / fl (of_int b)\<rfloor>"

section \<open>Media normalization\<close>

text \<open>
  The two multiples \<open>round(new_x // original_x)\<close> and \<open>round(new_y // original_y)\<close>
  of \<open>process_image\<close>, after the branch that rescales one side. In the first branch
  \<open>new_x\<close> has become a float and \<open>new_y\<close> is still an int, in the second the other
  way round; \<open>//\<close> on two ints is \<open>div\<close> and \<open>round\<close> of an int is the int.
\<close>

definition multiples :: "int \<Rightarrow> int \<Rightarrow> int \<Rightarrow> int \<Rightarrow> int \<times> int" where
  "multiples original_x original_y new_x new_y =
     (if true_div new_x original_x > true_div new_y original_y
      then (round_half_even (float_floordiv (true_div (new_y * original_x) original_y) original_x),
            new_y div original_y)
      else (new_x div original_x,
            round_half_even (float_floordiv (true_div (new_x * original_y) original_x) original_y)))"

text \<open>The size handed to \<open>img.resize\<close>.\<close>

definition resize_target :: "int \<Rightarrow> int \<Rightarrow> int \<Rightarrow> int \<Rightarrow> int \<times> int" where
  "resize_target original_x original_y new_x new_y =
     (fst (multiples original_x original_y new_x new_y) * original_x,
      snd (multiples original_x original_y new_x new_y) * original_y)"

text \<open>
  Pillow's \<open>Image.resize\<close>: a requested side below 1 raises
  \<open>ValueError("height and width must be > 0")\<close>, any other request yields an image
  of exactly the requested size.
\<close>

definition resize :: "int \<times> int \<Rightarrow> error + media" where
  "resize sz =
     (if fst sz < 1 \<or> snd sz < 1 then Inl (ValueError ''height and width must be > 0'')
      else Inr (Picture (nat (fst sz)) (nat (snd sz))))"

text \<open>
  \<open>process_image(image, original_path)\<close>: the original is opened first, then the
  submission; the result is the re-encoded PNG, known here by its size.
\<close>

definition process_image :: "media \<Rightarrow> node option \<Rightarrow> error + media" where
  "process_image img original =
     (case original of
        None \<Rightarrow> Inl FileNotFoundError
      | Some (Dir es) \<Rightarrow> Inl IsADirectoryError
      | Some (File (Picture original_x original_y)) \<Rightarrow>
          (case img of
             Picture new_x new_y \<Rightarrow>
               if original_x = 0 \<or> original_y = 0 then Inl ZeroDivisionError
               else resize (resize_target (int original_x) (int original_y) (int new_x) (int new_y))
           | _ \<Rightarrow> Inl UnidentifiedImageError)
      | Some (File _) \<Rightarrow> Inl UnidentifiedImageError)"

definition process_sound :: "media \<Rightarrow> error + media" where
  "process_sound sound =
     (case sound of
        Sound channels frame_rate \<Rightarrow> Inr (Sound 1 16000)
      | _ \<Rightarrow> Inl CouldntDecodeError)"

record attachment =
  content_type :: "string option"
  payload :: media

definition startswith :: "string \<Rightarrow> string \<Rightarrow> bool" where
  "startswith s pre = (take (length pre) s = pre)"

text \<open>
  \<open>save_uploaded_file(uploaded_file, original_path, new_path)\<close>, on the two trees:
  \<open>original_path\<close> is \<open>p\<close> below \<open>original_assets\<close> and \<open>new_path\<close> is \<open>p\<close> below
  \<open>new_assets\<close>. A missing content type makes \<open>startswith\<close> raise.
\<close>

definition save_uploaded_file ::
  "attachment \<Rightarrow> path \<Rightarrow> node \<Rightarrow> node \<Rightarrow> error + (node \<times> node)" where
  "save_uploaded_file uploaded_file p original new =
     (case (case content_type uploaded_file of
              None \<Rightarrow> Inl AttributeError
            | Some ct \<Rightarrow>
                if startswith ct ''image'' then process_image (payload uploaded_file) (lookup original p)
                else if startswith ct ''audio'' then process_sound (payload uploaded_file)
                else Inl (ValueError ''Invalid file type''))
      of
        Inl e \<Rightarrow> Inl e
      | Inr processed \<Rightarrow>
          (case write_file p processed new of
             Inl e \<Rightarrow> Inl e
           | Inr new' \<Rightarrow>
               Inr (if is_file (lookup original p) then unlink p original else original, new')))"

fun file_entry :: "path \<times> node \<Rightarrow> (path \<times> media) list" where
  "file_entry (p, File m) = [(p, m)]"
| "file_entry (p, Dir es) = []"

definition pack_mcmeta :: media where
  \<open>pack_mcmeta = Data ''{"pack": {"pack_format": 1, "description": "Community pack"}}''\<close>

text \<open>\<open>create_final_zip(pack_root_path)\<close>: the metadata file is written into the tree,
  then every file of the tree is added to the archive under its relative path.\<close>

definition create_final_zip :: "node \<Rightarrow> error + (node \<times> (path \<times> media) list)" where
  "create_final_zip pack_root =
     (case pack_root of
        File x \<Rightarrow> Inl NotADirectoryError
      | Dir es \<Rightarrow>
          (case map_of es ''pack.mcmeta'' of
             Some (Dir ds) \<Rightarrow> Inl IsADirectoryError
           | _ \<Rightarrow>
               (let pack_root' = Dir (put ''pack.mcmeta'' (File pack_mcmeta) es)
                in Inr (pack_root', concat (map file_entry (rglob pack_root'))))))"

section \<open>The assignment store\<close>

text \<open>
  The table \<open>assigned_files (user_id INTEGER PRIMARY KEY, file_path TEXT)\<close> is the list
  of its rows in scan order. \<open>user_id\<close> is the row id, so a scan visits the rows by
  ascending \<open>user_id\<close>, and \<open>fetchone\<close> returns the first row of the scan.
\<close>

type_synonym user_id = int
type_synonym table = "(user_id \<times> path) list"

text \<open>\<open>SELECT user_id FROM assigned_files WHERE file_path = ?\<close>, \<open>fetchone()\<close>.\<close>

definition select_user_id :: "table \<Rightarrow> path \<Rightarrow> user_id option" where
  "select_user_id rows p = map_option fst (find (\<lambda>r. snd r = p) rows)"

text \<open>\<open>SELECT file_path FROM assigned_files\<close>, \<open>fetchall()\<close>.\<close>

definition select_file_paths :: "table \<Rightarrow> path list" where
  "select_file_paths rows = map snd rows"

text \<open>\<open>INSERT OR REPLACE INTO assigned_files (user_id, file_path) VALUES (?, ?)\<close>: a row
  with the same primary key is deleted before the new row is inserted.\<close>

definition insert_or_replace :: "table \<Rightarrow> user_id \<Rightarrow> path \<Rightarrow> table" where
  "insert_or_replace rows u p = insort_key fst (u, p) (filter (\<lambda>r. fst r \<noteq> u) rows)"

text \<open>\<open>DELETE FROM assigned_files WHERE file_path = ?\<close>.\<close>

definition delete_file_path :: "table \<Rightarrow> path \<Rightarrow> table" where
  "delete_file_path rows p = filter (\<lambda>r. snd r \<noteq> p) rows"

section \<open>The workflow\<close>

record pack =
  original_assets :: node
  new_assets :: node
  assigned_files :: table

text \<open>
  What \<open>interaction.user.send\<close> does is decided outside the program: it delivers, raises
  \<open>discord.Forbidden\<close> (the user does not accept direct messages), or raises something
  else, which \<open>assign_file\<close> does not catch.

  \<open>assign_file\<close> is called by the two button handlers only, and both defer the
  interaction first (\<open>interaction.response.defer\<close>). The interaction is therefore
  already responded to when \<open>assign_file\<close> runs: in the handler of \<open>Forbidden\<close> the
  call \<open>interaction.response.send_message\<close> raises \<open>InteractionResponded\<close>, and the
  request to allow direct messages is not sent.
\<close>

datatype delivery = Delivered | Forbidden | HTTPException

text \<open>
  The outcomes of a claim request:
  \<^item> \<open>NoAvailable\<close>: "No available textures." / "No available sounds.";
  \<^item> \<open>AlreadyAssigned u\<close>: \<open>RuntimeError("File already assigned to u")\<close>;
  \<^item> \<open>ReadRaised e\<close>: reading the assigned file raised \<open>e\<close>;
  \<^item> \<open>InteractionResponded\<close>: \<open>send\<close> raised \<open>Forbidden\<close>, and answering the interaction
    a second time raised \<open>InteractionResponded\<close>, which propagates;
  \<^item> \<open>SendRaised\<close>: another exception of \<open>send\<close> propagates;
  \<^item> \<open>FileAssigned\<close>: "File assigned." with the link to the delivery.
\<close>

datatype assign_reply =
    NoAvailable
  | AlreadyAssigned user_id
  | ReadRaised error
  | InteractionResponded
  | SendRaised
  | FileAssigned

definition assign_file :: "path \<Rightarrow> user_id \<Rightarrow> delivery \<Rightarrow> pack \<Rightarrow> assign_reply \<times> pack" where
  "assign_file file_path user dm s =
     (case select_user_id (assigned_files s) file_path of
        Some u \<Rightarrow> (AlreadyAssigned u, s)
      | None \<Rightarrow>
          (let s' = s\<lparr>assigned_files := insert_or_replace (assigned_files s) user file_path\<rparr>
           in case lookup (original_assets s) file_path of
                None \<Rightarrow> (ReadRaised FileNotFoundError, s')
              | Some (Dir es) \<Rightarrow> (ReadRaised IsADirectoryError, s')
              | Some (File m) \<Rightarrow>
                  (case dm of
                     Delivered \<Rightarrow> (FileAssigned, s')
                   | Forbidden \<Rightarrow> (InteractionResponded, s')
                   | HTTPException \<Rightarrow> (SendRaised, s'))))"

definition not_taken :: "path list \<Rightarrow> table \<Rightarrow> path list" where
  "not_taken resource_gen rows =
     filter (\<lambda>p. p \<notin> set (select_file_paths rows)) resource_gen"

text \<open>\<open>random.choice\<close> draws an index below the length; \<open>r\<close> is the number drawn,
  reduced modulo the length so that every \<open>r\<close> is a draw.\<close>

definition get_random_texture :: "nat \<Rightarrow> user_id \<Rightarrow> delivery \<Rightarrow> pack \<Rightarrow> assign_reply \<times> pack" where
  "get_random_texture r user dm s =
     (let available_textures = not_taken (get_textures (original_assets s)) (assigned_files s)
      in if available_textures = [] then (NoAvailable, s)
         else assign_file (available_textures ! (r mod length available_textures)) user dm s)"

definition get_random_sound :: "nat \<Rightarrow> user_id \<Rightarrow> delivery \<Rightarrow> pack \<Rightarrow> assign_reply \<times> pack" where
  "get_random_sound r user dm s =
     (let available_sounds = not_taken (get_sounds (original_assets s)) (assigned_files s)
      in if available_sounds = [] then (NoAvailable, s)
         else assign_file (available_sounds ! (r mod length available_sounds)) user dm s)"

text \<open>
  The outcomes of a submission:
  \<^item> \<open>NoLongerAssigned\<close>: "This file is no longer assigned to you.";
  \<^item> \<open>FailedToSubmit e\<close>: "Failed to submit file: e";
  \<^item> \<open>FileSubmitted\<close>: "File submitted.", files remain under \<open>original_assets\<close>;
  \<^item> \<open>ResourcePackReady finished\<close>: "File submitted.", then "Resource pack ready." with the
    archive;
  \<^item> \<open>ArchiveRaised e\<close>: "File submitted.", then assembling the archive raised \<open>e\<close>.
\<close>

datatype submit_reply =
    NoLongerAssigned
  | FailedToSubmit error
  | FileSubmitted
  | ResourcePackReady "(path \<times> media) list"
  | ArchiveRaised error

text \<open>The completion check of \<open>submit_file\<close>: \<open>not tuple(get_resources(original_root))\<close>.\<close>

definition is_complete :: "node \<Rightarrow> bool" where
  "is_complete original_root = (get_resources original_root = [])"

definition submit_file :: "user_id \<Rightarrow> attachment \<Rightarrow> path \<Rightarrow> pack \<Rightarrow> submit_reply \<times> pack" where
  "submit_file author uploaded_file serialized_path s =
     (case select_user_id (assigned_files s) serialized_path of
        None \<Rightarrow> (NoLongerAssigned, s)
      | Some u \<Rightarrow>
          if u \<noteq> author then (NoLongerAssigned, s)
          else
            (case save_uploaded_file uploaded_file serialized_path (original_assets s) (new_assets s) of
               Inl e \<Rightarrow> (FailedToSubmit e, s)
             | Inr (original', new') \<Rightarrow>
                 (let s' = s\<lparr>original_assets := original', new_assets := new',
                              assigned_files := delete_file_path (assigned_files s) serialized_path\<rparr>
                  in if is_complete original'
                     then (case create_final_zip new' of
                             Inl e \<Rightarrow> (ArchiveRaised e, s')
                           | Inr (new'', finished) \<Rightarrow> (ResourcePackReady finished, s'\<lparr>new_assets := new''\<rparr>))
                     else (FileSubmitted, s'))))"

section \<open>Notions of the specification\<close>



text \<open>The multiple of the specification: the floor of the smaller of the two scale-up
  ratios, taken exactly.\<close>

definition shared_multiple :: "nat \<Rightarrow> nat \<Rightarrow> nat \<Rightarrow> nat \<Rightarrow> int" where
  "shared_multiple ox oy w h = \<lfloor>min (of_nat w / of_nat ox) (of_nat h / of_nat oy) :: rat\<rfloor>"

text \<open>The invariant the table is meant to keep: one row per user (the primary key) and
  one row per asset path.\<close>

definition store_inv :: "table \<Rightarrow> bool" where
  "store_inv rows = (distinct (map fst rows) \<and> distinct (map snd rows))"


section \<open>A worked pack\<close>

text \<open>Two textures of 16 by 16 pixels; user 7 holds \<open>b.png\<close>.\<close>

definition example_pack :: pack where
  "example_pack =
     \<lparr>original_assets =
        Dir [(''a.png'', File (Picture 16 16)), (''b.png'', File (Picture 16 16))],
      new_assets = Dir [],
      assigned_files = [(7, [''b.png''])]\<rparr>"

text \<open>A tree whose only file is a model definition.\<close>

definition model_tree :: node where
  "model_tree =
     Dir [(''assets'', Dir [(''minecraft'', Dir [(''models'', Dir [(''block'',
       Dir [(''stone.json'', File (Data ''{}''))])])])])]"

section \<open>Rounding to a double: monotone, exact on integers, relative error\<close>

text \<open>The binade of a positive rational \<open>x\<close> is the exponent \<open>e\<close> with
  \<open>2 ^ e \<le> x < 2 ^ (e + 1)\<close>.\<close>

lemma int_pow_bounds:
  fixes p :: int
  assumes "0 < p"
  shows "(2::rat) powi (bitlen p - 1) \<le> of_int p" "of_int p < (2::rat) powi (bitlen p)"
proof -
  from assms have b: "1 \<le> bitlen p" by (auto simp: bitlen_alt_def)
  have "(2::int) ^ nat (bitlen p - 1) \<le> p" using bitlen_bounds[OF assms] by simp
  then have "(of_int ((2::int) ^ nat (bitlen p - 1)) :: rat) \<le> of_int p"
    by (simp only: of_int_le_iff)
  then show "(2::rat) powi (bitlen p - 1) \<le> of_int p"
    using b by (simp add: power_int_nonneg_exp)
  have "p < (2::int) ^ nat (bitlen p)" using bitlen_bounds[OF assms] by simp
  then have "(of_int p :: rat) < of_int ((2::int) ^ nat (bitlen p))"
    by (simp only: of_int_less_iff)
  then show "of_int p < (2::rat) powi (bitlen p)"
    using b by (simp add: power_int_nonneg_exp)
qed

lemma binade_bounds:
  assumes "0 < x"
  shows "2 powi (binade x) \<le> x" "x < 2 powi (binade x + 1)"
proof -
  obtain p q where pq: "quotient_of x = (p, q)" by (cases "quotient_of x")
  have q: "0 < q" using pq quotient_of_denom_pos by blast
  have x: "x = of_int p / of_int q" using pq quotient_of_div by blast
  have p: "0 < p" using assms q x by (simp add: zero_less_divide_iff)
  define d where "d = bitlen p - bitlen q"
  have up: "x < 2 powi (d + 1)"
  proof -
    have "of_int p < (2::rat) powi (bitlen p)" using int_pow_bounds[OF p] by simp
    moreover have "(2::rat) powi (bitlen q - 1) \<le> of_int q" using int_pow_bounds[OF q] by simp
    moreover have "(2::rat) powi (bitlen p) = 2 powi (d + 1) * 2 powi (bitlen q - 1)"
      by (simp add: d_def flip: power_int_add)
    moreover have "(2::rat) powi (d + 1) * 2 powi (bitlen q - 1) \<le> 2 powi (d + 1) * of_int q"
      using int_pow_bounds(1)[OF q] by (intro mult_left_mono) auto
    ultimately have "of_int p < (2::rat) powi (d + 1) * of_int q"
      by linarith
    then show ?thesis using q by (simp add: x pos_divide_less_eq)
  qed
  have lo: "2 powi (d - 1) < x"
  proof -
    have "(2::rat) powi (bitlen p - 1) \<le> of_int p" using int_pow_bounds[OF p] by simp
    moreover have "of_int q < (2::rat) powi (bitlen q)" using int_pow_bounds[OF q] by simp
    moreover have "(2::rat) powi (bitlen p - 1) = 2 powi (d - 1) * 2 powi (bitlen q)"
      by (simp add: d_def flip: power_int_add)
    moreover have "(2::rat) powi (d - 1) * of_int q < 2 powi (d - 1) * 2 powi (bitlen q)"
      using int_pow_bounds(2)[OF q] by (intro mult_strict_left_mono) auto
    ultimately have "(2::rat) powi (d - 1) * of_int q < of_int p"
      by linarith
    then show ?thesis using q by (simp add: x pos_less_divide_eq)
  qed
  have b: "binade x = (if 2 powi d \<le> x then d else d - 1)"
    by (simp add: binade_def pq d_def)
  show "2 powi (binade x) \<le> x" using lo by (simp add: b)
  show "x < 2 powi (binade x + 1)" using up by (auto simp: b)
qed

lemma pow2_less_iff: "(2::rat) powi a < 2 powi b \<longleftrightarrow> a < b"
proof
  assume l: "(2::rat) powi a < 2 powi b"
  show "a < b"
  proof (rule ccontr)
    assume "\<not> a < b"
    then have "b \<le> a" by simp
    then have "(2::rat) powi b \<le> 2 powi a" by (intro power_int_increasing) auto
    with l show False by simp
  qed
next
  assume "a < b"
  then show "(2::rat) powi a < 2 powi b" by (intro power_int_strict_increasing) auto
qed

lemma pow2_le_iff: "(2::rat) powi a \<le> 2 powi b \<longleftrightarrow> a \<le> b"
  using pow2_less_iff[of b a] by (auto simp: not_less[symmetric])

lemma binade_unique:
  assumes "2 powi e \<le> x" "x < 2 powi (e + 1)"
  shows "binade x = e"
proof -
  have "(0::rat) < 2 powi e" by simp
  then have x: "0 < x" using assms(1) by linarith
  note b = binade_bounds[OF x]
  have "(2::rat) powi e < 2 powi (binade x + 1)" using assms(1) b(2) by simp
  then have 1: "e < binade x + 1" by (simp add: pow2_less_iff) 
  have "(2::rat) powi (binade x) < 2 powi (e + 1)" using assms(2) b(1) by simp
  then have "binade x < e + 1" by (simp add: pow2_less_iff) 
  with 1 show ?thesis by simp
qed


lemma binade_mono:
  assumes "0 < x" "x \<le> y"
  shows "binade x \<le> binade y"
proof -
  have y: "0 < y" using assms by simp
  have "(2::rat) powi (binade x) \<le> x" using binade_bounds(1)[OF assms(1)] .
  also have "x \<le> y" by fact
  also have "y < 2 powi (binade y + 1)" using binade_bounds(2)[OF y] .
  finally have "binade x < binade y + 1" by (simp add: pow2_less_iff)
  then show ?thesis by simp
qed

text \<open>Rounding to the nearest integer fixes the integers, is monotone and moves its
  argument by at most one half.\<close>

lemma round_half_even_of_int [simp]: "round_half_even (of_int n) = n"
  by (simp add: round_half_even_def)

lemma round_half_even_bounds:
  "of_int (round_half_even x) \<le> x + 1 / 2" "x - 1 / 2 \<le> of_int (round_half_even x)"
  unfolding round_half_even_def Let_def
  by (auto; linarith)+

lemma round_half_even_mono:
  assumes "x \<le> y"
  shows "round_half_even x \<le> round_half_even y"
proof (cases "\<lfloor>x\<rfloor> = \<lfloor>y\<rfloor>")
  case True
  then show ?thesis
    using assms unfolding round_half_even_def Let_def by auto
next
  case False
  then have "\<lfloor>x\<rfloor> < \<lfloor>y\<rfloor>" using floor_mono[OF assms] by simp
  moreover have "round_half_even x \<le> \<lfloor>x\<rfloor> + 1"
    unfolding round_half_even_def Let_def by auto
  moreover have "\<lfloor>y\<rfloor> \<le> round_half_even y"
    unfolding round_half_even_def Let_def by auto
  ultimately show ?thesis by linarith
qed

text \<open>Rounding to a double keeps a positive number within its binade, is monotone, is
  exact on the integers up to \<open>2 ^ 53\<close>, and enlarges a positive number by at most the
  factor \<open>1 + 2 ^ -53\<close>.\<close>

lemma fl_pos_eq:
  assumes "0 < x"
  shows "fl x = of_int (round_half_even (x / 2 powi (binade x - 52))) * 2 powi (binade x - 52)"
  using assms by (simp add: fl_def Let_def)

lemma scaled_bounds:
  assumes "0 < x"
  shows "2 ^ 52 \<le> x / 2 powi (binade x - 52)" "x / 2 powi (binade x - 52) < 2 ^ 53"
proof -
  have e: "(2::rat) powi (binade x - 52) = 2 powi (binade x) / 2 ^ 52"
    by (simp add: power_int_diff)
  have e2: "(2::rat) powi (binade x + 1) = 2 powi (binade x) * 2"
    by (simp add: power_int_add)
  show "2 ^ 52 \<le> x / 2 powi (binade x - 52)"
    using binade_bounds(1)[OF assms] by (simp add: e pos_le_divide_eq)
  show "x / 2 powi (binade x - 52) < 2 ^ 53"
    using binade_bounds(2)[OF assms] by (simp add: e e2 pos_divide_less_eq)
qed

lemma fl_bounds:
  assumes "0 < x"
  shows "2 powi (binade x) \<le> fl x" "fl x \<le> 2 powi (binade x + 1)"
proof -
  let ?u = "(2::rat) powi (binade x - 52)"
  let ?m = "x / ?u"
  have u: "0 < ?u" by simp
  have "round_half_even (of_int (2 ^ 52)) \<le> round_half_even ?m"
    using scaled_bounds(1)[OF assms] by (intro round_half_even_mono) simp
  then have "(2::int) ^ 52 \<le> round_half_even ?m" by (simp only: round_half_even_of_int)
  then have "(of_int ((2::int) ^ 52) :: rat) \<le> of_int (round_half_even ?m)"
    by (simp only: of_int_le_iff)
  then have a: "2 ^ 52 * ?u \<le> of_int (round_half_even ?m) * ?u"
    using u by (intro mult_right_mono) auto
  have b: "2 ^ 52 * ?u = 2 powi (binade x)" by (simp add: power_int_diff)
  show "2 powi (binade x) \<le> fl x" using a unfolding b fl_pos_eq[OF assms] .
  have "round_half_even ?m \<le> round_half_even (of_int (2 ^ 53))"
    using scaled_bounds(2)[OF assms] by (intro round_half_even_mono) simp
  then have "round_half_even ?m \<le> (2::int) ^ 53" by (simp only: round_half_even_of_int)
  then have "(of_int (round_half_even ?m) :: rat) \<le> of_int ((2::int) ^ 53)"
    by (simp only: of_int_le_iff)
  then have c: "of_int (round_half_even ?m) * ?u \<le> 2 ^ 53 * ?u"
    using u by (intro mult_right_mono) auto
  have d: "2 ^ 53 * ?u = 2 powi (binade x + 1)" by (simp add: power_int_diff power_int_add)
  show "fl x \<le> 2 powi (binade x + 1)" using c unfolding d fl_pos_eq[OF assms] .
qed

lemma fl_mono_pos:
  assumes "0 < x" "x \<le> y"
  shows "fl x \<le> fl y"
proof (cases "binade x = binade y")
  case True
  have y: "0 < y" using assms by simp
  let ?u = "(2::rat) powi (binade y - 52)"
  have "x / ?u \<le> y / ?u" using assms(2) by (simp add: divide_right_mono)
  then have "round_half_even (x / ?u) \<le> round_half_even (y / ?u)"
    by (rule round_half_even_mono)
  then have "(of_int (round_half_even (x / ?u)) :: rat) \<le> of_int (round_half_even (y / ?u))"
    by (simp only: of_int_le_iff)
  then have "of_int (round_half_even (x / ?u)) * ?u \<le> of_int (round_half_even (y / ?u)) * ?u"
    by (intro mult_right_mono) auto
  then show ?thesis unfolding fl_pos_eq[OF assms(1)] fl_pos_eq[OF y] True .
next
  case False
  have y: "0 < y" using assms by simp
  from False binade_mono[OF assms] have "binade x + 1 \<le> binade y" by simp
  then have "(2::rat) powi (binade x + 1) \<le> 2 powi (binade y)" by (simp only: pow2_le_iff)
  with fl_bounds(2)[OF assms(1)] fl_bounds(1)[OF y] show ?thesis by linarith
qed

lemma fl_mono:
  assumes "0 \<le> x" "x \<le> y"
  shows "fl x \<le> fl y"
proof (cases "x = 0")
  case False
  with assms show ?thesis by (intro fl_mono_pos) auto
next
  case True
  show ?thesis
  proof (cases "y = 0")
    case True
    with \<open>x = 0\<close> show ?thesis by simp
  next
    case False
    with assms have y: "0 < y" by simp
    have "(0::rat) < 2 powi (binade y)" by simp
    with fl_bounds(1)[OF y] have "0 < fl y" by linarith
    then show ?thesis using \<open>x = 0\<close> by (simp add: fl_def)
  qed
qed

lemma fl_exact:
  assumes "0 < x" "x / 2 powi (binade x - 52) = of_int m"
  shows "fl x = x"
proof -
  have "fl x = of_int m * 2 powi (binade x - 52)"
    unfolding fl_pos_eq[OF assms(1)] assms(2) round_half_even_of_int ..
  also have "\<dots> = x" unfolding assms(2)[symmetric] by simp
  finally show ?thesis .
qed

lemma fl_of_int:
  assumes "0 \<le> n" "n \<le> 2 ^ 53"
  shows "fl (of_int n) = of_int n"
proof (cases "n = 0")
  case True
  then show ?thesis by (simp add: fl_def)
next
  case False
  with assms have n: "0 < n" by simp
  let ?x = "of_int n :: rat"
  have x: "0 < ?x" using n by simp
  have "?x \<le> of_int (2 ^ 53)" using assms(2) by (simp only: of_int_le_iff)
  then have "?x < 2 powi 54" by simp
  with binade_bounds(1)[OF x] have "(2::rat) powi (binade ?x) < 2 powi 54" by linarith
  then have e: "binade ?x \<le> 53" by (simp only: pow2_less_iff)
  show ?thesis
  proof (cases "binade ?x = 53")
    case True
    have "(2::rat) ^ 53 \<le> ?x" using binade_bounds(1)[OF x] by (simp add: True)
    then have "(of_int (2 ^ 53) :: rat) \<le> of_int n" by simp
    then have "2 ^ 53 \<le> n" by (simp only: of_int_le_iff)
    with assms(2) have n53: "n = 2 ^ 53" by simp
    have u2: "(2::rat) powi (binade ?x - 52) = 2" by (simp add: True)
    have "?x / 2 powi (binade ?x - 52) = of_int (2 ^ 52)"
      unfolding u2 by (simp add: n53)
    then show ?thesis by (rule fl_exact[OF x])
  next
    case False
    with e have e': "0 \<le> 52 - binade ?x" by simp
    have "(2::rat) powi (binade ?x - 52) = 1 / 2 powi (52 - binade ?x)"
      by (simp add: power_int_diff)
    also have "\<dots> = 1 / 2 ^ nat (52 - binade ?x)"
      using e' by (simp add: power_int_nonneg_exp)
    finally have "?x / 2 powi (binade ?x - 52) = of_int (n * 2 ^ nat (52 - binade ?x))"
      by simp
    then show ?thesis by (rule fl_exact[OF x])
  qed
qed

lemma fl_error:
  assumes "0 < x"
  shows "fl x \<le> x * (1 + 1 / 2 ^ 53)"
proof -
  let ?u = "(2::rat) powi (binade x - 52)"
  have u: "0 < ?u" by simp
  have "of_int (round_half_even (x / ?u)) \<le> x / ?u + 1 / 2"
    by (rule round_half_even_bounds)
  then have "of_int (round_half_even (x / ?u)) * ?u \<le> (x / ?u + 1 / 2) * ?u"
    using u by (intro mult_right_mono) auto
  also have "\<dots> = x + ?u / 2" by (simp add: algebra_simps)
  also have "?u / 2 = 2 powi (binade x) / 2 ^ 53" by (simp add: power_int_diff)
  also have "\<dots> \<le> x / 2 ^ 53"
    using binade_bounds(1)[OF assms] by (simp add: divide_right_mono)
  finally have "fl x \<le> x + x / 2 ^ 53" unfolding fl_pos_eq[OF assms] by simp
  then show ?thesis by (simp add: algebra_simps)
qed

subsection \<open>The multiples computed by \<open>process_image\<close>\<close>

text \<open>
  For sizes below \<open>2 ^ 53\<close> the rounding of the true divisions changes neither the branch
  that matters nor the floor: \<open>(a * c / b) // c\<close> is \<open>a div b\<close>, a float comparison that
  holds also holds of the exact quotients, and one that fails leaves the floors ordered.
\<close>

lemma div_bounds_rat:
  fixes a b :: int
  assumes "0 < b"
  shows "of_int (a div b) \<le> (of_int a / of_int b :: rat)"
    and "(of_int a :: rat) \<le> (of_int (a div b) + 1) * of_int b - 1"
proof -
  have m: "0 \<le> a mod b" "a mod b < b" using assms by simp_all
  have e: "a = (a div b) * b + a mod b" by simp
  have "(a div b) * b \<le> a" using m(1) e by linarith
  then have "(of_int ((a div b) * b) :: rat) \<le> of_int a" by (simp only: of_int_le_iff)
  then show "of_int (a div b) \<le> (of_int a / of_int b :: rat)"
    using assms by (simp add: pos_le_divide_eq)
  have "(a div b + 1) * b = (a div b) * b + b" by (simp add: algebra_simps)
  then have "a \<le> (a div b + 1) * b - 1" using m(2) e by linarith
  then have "(of_int a :: rat) \<le> of_int ((a div b + 1) * b - 1)" by (simp only: of_int_le_iff)
  then show "(of_int a :: rat) \<le> (of_int (a div b) + 1) * of_int b - 1" by simp
qed

lemma floordiv_scaled:
  fixes a b c :: int
  assumes "0 < a" "0 < b" "0 < c" "a < 2 ^ 53" "c \<le> 2 ^ 53" "(a div b) * c \<le> 2 ^ 53"
  shows "float_floordiv (true_div (a * c) b) c = of_int (a div b)"
proof -
  let ?A = "of_int a :: rat" and ?B = "of_int b :: rat" and ?C = "of_int c :: rat"
  let ?k = "a div b"
  let ?t = "?A * ?C / ?B"
  have A: "0 < ?A" and B: "0 < ?B" and C: "0 < ?C" using assms by simp_all
  have t: "0 < ?t" using A B C by simp
  have k0: "0 \<le> ?k" using assms by (simp add: pos_imp_zdiv_nonneg_iff)
  have flc: "fl ?C = ?C" using assms by (intro fl_of_int) auto
  have lo: "of_int ?k * ?C \<le> fl ?t"
  proof -
    have "of_int ?k * ?C \<le> (?A / ?B) * ?C"
      using div_bounds_rat(1)[OF assms(2), of a] C by (intro mult_right_mono) auto
    then have "of_int (?k * c) \<le> ?t" by simp
    moreover have "(0::rat) \<le> of_int (?k * c)" using k0 assms(3) by simp
    ultimately have "fl (of_int (?k * c)) \<le> fl ?t" by (intro fl_mono)
    moreover have "fl (of_int (?k * c)) = of_int (?k * c)"
      using k0 assms by (intro fl_of_int) auto
    ultimately show ?thesis by simp
  qed
  have hi: "fl ?t < (of_int ?k + 1) * ?C"
  proof -
    have "?A * ?C \<le> ((of_int ?k + 1) * ?B - 1) * ?C"
      using div_bounds_rat(2)[OF assms(2), of a] C by (intro mult_right_mono) auto
    then have "?t \<le> ((of_int ?k + 1) * ?B - 1) * ?C / ?B"
      using B by (simp add: divide_right_mono)
    also have "\<dots> = (of_int ?k + 1) * ?C - ?C / ?B"
      using B by (simp add: field_simps)
    finally have t1: "?t \<le> (of_int ?k + 1) * ?C - ?C / ?B" .
    have "?A < 2 ^ 53" using assms(4) by (metis of_int_less_iff of_int_numeral of_int_power)
    then have "?A / 2 ^ 53 < 1" by simp
    then have "(?A / 2 ^ 53) * (?C / ?B) < 1 * (?C / ?B)"
      using B C by (intro mult_strict_right_mono) auto
    then have t2: "?t / 2 ^ 53 < ?C / ?B" by simp
    have "fl ?t \<le> ?t * (1 + 1 / 2 ^ 53)" by (rule fl_error[OF t])
    also have "\<dots> = ?t + ?t / 2 ^ 53" by (simp add: algebra_simps)
    finally show ?thesis using t1 t2 by linarith
  qed
  have "\<lfloor>fl ?t / ?C\<rfloor> = ?k"
  proof (rule floor_unique)
    show "of_int ?k \<le> fl ?t / ?C" using lo C by (simp add: pos_le_divide_eq)
    show "fl ?t / ?C < of_int ?k + 1" using hi C by (simp add: pos_divide_less_eq)
  qed
  then show ?thesis by (simp add: float_floordiv_def true_div_def flc)
qed

lemma true_div_gt_exact:
  fixes a b c d :: int
  assumes "0 \<le> a" "0 < b" "true_div c d < true_div a b"
  shows "(of_int c / of_int d :: rat) < of_int a / of_int b"
proof (rule ccontr)
  assume "\<not> (of_int c / of_int d :: rat) < of_int a / of_int b"
  then have "(of_int a / of_int b :: rat) \<le> of_int c / of_int d" by simp
  moreover have "(0::rat) \<le> of_int a / of_int b" using assms by simp
  ultimately have "true_div a b \<le> true_div c d"
    unfolding true_div_def by (intro fl_mono)
  with assms(3) show False by simp
qed

lemma div_mult_le_self:
  fixes a b :: int
  assumes "0 < b"
  shows "(a div b) * b \<le> a"
proof -
  have "0 \<le> a mod b" using assms by simp
  moreover have "a = (a div b) * b + a mod b" by simp
  ultimately show ?thesis by linarith
qed

lemma true_div_le_floor:
  fixes w ox h oy :: int
  assumes "0 < w" "0 < ox" "0 < h" "0 < oy" "w < 2 ^ 53" "h < 2 ^ 53"
    and "\<not> true_div h oy < true_div w ox"
  shows "w div ox \<le> h div oy"
proof (rule ccontr)
  assume "\<not> w div ox \<le> h div oy"
  then have lt: "h div oy + 1 \<le> w div ox" by simp
  let ?n = "w div ox"
  let ?W = "of_int w :: rat" and ?OX = "of_int ox :: rat"
  let ?H = "of_int h :: rat" and ?OY = "of_int oy :: rat"
  have OY: "0 < ?OY" and H: "0 < ?H" using assms by simp_all
  have n0: "0 \<le> ?n" using assms by (simp add: pos_imp_zdiv_nonneg_iff)
  have "?n * 1 \<le> ?n * ox" using n0 assms(2) by (intro mult_left_mono) auto
  with div_mult_le_self[OF assms(2), of w] assms(5) have n53: "?n \<le> 2 ^ 53" by simp
  have "fl (of_int ?n) \<le> fl (?W / ?OX)"
    using div_bounds_rat(1)[OF assms(2), of w] n0 by (intro fl_mono) auto
  then have a: "of_int ?n \<le> true_div w ox"
    using fl_of_int[OF n0 n53] by (simp add: true_div_def)
  have "(of_int (h div oy) + 1 :: rat) \<le> of_int ?n"
    using lt by (metis of_int_1 of_int_add of_int_le_iff)
  then have "(of_int (h div oy) + 1) * ?OY \<le> of_int ?n * ?OY"
    using OY by (intro mult_right_mono) auto
  with div_bounds_rat(2)[OF assms(4), of h] have "?H \<le> of_int ?n * ?OY - 1" by linarith
  then have "?H / ?OY \<le> (of_int ?n * ?OY - 1) / ?OY"
    using OY by (simp add: divide_right_mono)
  also have "\<dots> = of_int ?n - 1 / ?OY" using OY by (simp add: field_simps)
  finally have t1: "?H / ?OY \<le> of_int ?n - 1 / ?OY" .
  have "?H < 2 ^ 53" using assms(6) by (metis of_int_less_iff of_int_numeral of_int_power)
  then have "?H / 2 ^ 53 < 1" by simp
  then have "(?H / 2 ^ 53) * (1 / ?OY) < 1 * (1 / ?OY)"
    using OY by (intro mult_strict_right_mono) auto
  then have t2: "(?H / ?OY) / 2 ^ 53 < 1 / ?OY" by simp
  have "0 < ?H / ?OY" using H OY by simp
  then have "fl (?H / ?OY) \<le> (?H / ?OY) * (1 + 1 / 2 ^ 53)" by (rule fl_error)
  also have "\<dots> = ?H / ?OY + (?H / ?OY) / 2 ^ 53" by (simp add: algebra_simps)
  finally have "true_div h oy < of_int ?n" unfolding true_div_def using t1 t2 by linarith
  with a assms(7) show False by simp
qed

text \<open>Both multiples are the smaller of the two integer quotients.\<close>

lemma multiples_eq:
  fixes w ox h oy :: int
  assumes "0 < ox" "0 < oy" "0 < w" "0 < h"
    and "ox < 2 ^ 53" "oy < 2 ^ 53" "w < 2 ^ 53" "h < 2 ^ 53"
  shows "multiples ox oy w h = (min (w div ox) (h div oy), min (w div ox) (h div oy))"
proof (cases "true_div h oy < true_div w ox")
  case True
  have "(of_int h / of_int oy :: rat) < of_int w / of_int ox"
    using assms True by (intro true_div_gt_exact) auto
  then have "\<lfloor>of_int h / of_int oy :: rat\<rfloor> \<le> \<lfloor>of_int w / of_int ox :: rat\<rfloor>"
    by (intro floor_mono) simp
  then have le: "h div oy \<le> w div ox" by (simp only: floor_divide_of_int_eq)
  then have "(h div oy) * ox \<le> (w div ox) * ox" using assms(1) by (intro mult_right_mono) auto
  with div_mult_le_self[OF assms(1), of w] assms(7) have "(h div oy) * ox \<le> 2 ^ 53" by simp
  then have "float_floordiv (true_div (h * ox) oy) ox = of_int (h div oy)"
    using assms by (intro floordiv_scaled) auto
  then show ?thesis using True le by (simp add: multiples_def min_def)
next
  case False
  have le: "w div ox \<le> h div oy" using assms False by (intro true_div_le_floor) auto
  then have "(w div ox) * oy \<le> (h div oy) * oy" using assms(2) by (intro mult_right_mono) auto
  with div_mult_le_self[OF assms(2), of h] assms(8) have "(w div ox) * oy \<le> 2 ^ 53" by simp
  then have "float_floordiv (true_div (w * oy) ox) oy = of_int (w div ox)"
    using assms by (intro floordiv_scaled) auto
  then show ?thesis using False le by (simp add: multiples_def min_def)
qed

lemma multiples_zero_iff:
  fixes w ox h oy :: int
  assumes "0 < ox" "0 < oy" "0 < w" "0 < h"
    and "ox < 2 ^ 53" "oy < 2 ^ 53" "w < 2 ^ 53" "h < 2 ^ 53"
  shows "multiples ox oy w h = (0, 0) \<longleftrightarrow> w < ox \<or> h < oy"
proof -
  have a: "w div ox = 0 \<longleftrightarrow> w < ox" "h div oy = 0 \<longleftrightarrow> h < oy"
    using assms(1-4) by (auto simp: zdiv_eq_0_iff)
  have b: "0 \<le> w div ox" "0 \<le> h div oy"
    using assms(1-4) by (simp_all add: pos_imp_zdiv_nonneg_iff)
  have "min (w div ox) (h div oy) = 0 \<longleftrightarrow> w < ox \<or> h < oy"
    using a b by (auto simp: min_def)
  then show ?thesis by (simp add: multiples_eq[OF assms])
qed

text \<open>A submission of the original's size.\<close>

lemma fl_pos:
  assumes "0 < x"
  shows "0 < fl x"
proof -
  have "(0::rat) < 2 powi (binade x)" by simp
  with fl_bounds(1)[OF assms] show ?thesis by linarith
qed

lemma true_div_self:
  assumes "0 < a"
  shows "true_div a a = 1"
proof -
  have "fl (of_int 1) = of_int 1" by (intro fl_of_int) auto
  then show ?thesis using assms by (simp add: true_div_def)
qed

lemma multiples_same_size:
  fixes ox oy :: int
  assumes "0 < ox" "0 < oy"
  shows "multiples ox oy ox oy = (1, 1)"
proof -
  have "(of_int (ox * oy) / of_int ox :: rat) = of_int oy" using assms by simp
  then have t: "true_div (ox * oy) ox = fl (of_int oy)" by (simp only: true_div_def)
  have "0 < fl (of_int oy :: rat)" using assms by (intro fl_pos) simp
  then have "float_floordiv (fl (of_int oy)) oy = of_int 1"
    by (simp add: float_floordiv_def)
  then show ?thesis
    using assms by (simp add: multiples_def true_div_self t del: of_int_1)
qed

text \<open>The multiple of the specification is the smaller of the two integer quotients.\<close>

lemma floor_min: "\<lfloor>min a b :: rat\<rfloor> = min \<lfloor>a\<rfloor> \<lfloor>b\<rfloor>"
  by (simp add: min_def floor_mono) (meson floor_mono linear order_antisym)

lemma shared_multiple_div:
  "shared_multiple ox oy w h = min (int w div int ox) (int h div int oy)"
proof -
  have "(of_nat w / of_nat ox :: rat) = of_int (int w) / of_int (int ox)" by simp
  moreover have "(of_nat h / of_nat oy :: rat) = of_int (int h) / of_int (int oy)" by simp
  ultimately show ?thesis
    unfolding shared_multiple_def floor_min by (simp only: floor_divide_of_int_eq)
qed

section \<open>Rows of the assignment table\<close>

lemma select_user_id_None: "select_user_id rows p = None \<longleftrightarrow> p \<notin> snd ` set rows"
  by (induction rows) (auto simp: select_user_id_def)

lemma select_user_id_Some: "select_user_id rows p = Some u \<Longrightarrow> (u, p) \<in> set rows"
  by (induction rows) (auto simp: select_user_id_def split: if_splits)

lemma set_insert_or_replace:
  "set (insert_or_replace rows u p) = insert (u, p) {r \<in> set rows. fst r \<noteq> u}"
  by (simp add: insert_or_replace_def set_insort_key)

lemma select_user_id_unique:
  assumes "distinct (map snd rows)" "(u, p) \<in> set rows"
  shows "select_user_id rows p = Some u"
  using assms by (induction rows) (auto simp: select_user_id_def rev_image_eqI)

lemma filter_insort_key_fst:
  fixes u :: int and p :: path
  shows "filter (\<lambda>r. fst r = u) (insort_key fst (u, p) (filter (\<lambda>r. fst r \<noteq> u) rows)) = [(u, p)]"
proof -
  have "filter (\<lambda>r. fst r = u) (insort_key fst (u, p) xs) = [(u, p)]"
    if "\<forall>r \<in> set xs. fst r \<noteq> u" for xs :: "(int \<times> path) list"
    using that by (induction xs) auto
  then show ?thesis by simp
qed

lemma rows_of_user: "filter (\<lambda>r. fst r = u) (insert_or_replace rows u p) = [(u, p)]"
  by (simp add: insert_or_replace_def filter_insort_key_fst)

text \<open>Claims and submissions keep the table at one row per user and at most one row
  per asset path.\<close>

lemma distinct_map_insort_key:
  "distinct (map g (insort_key f x xs)) \<longleftrightarrow> g x \<notin> g ` set xs \<and> distinct (map g xs)"
  by (induction xs) (auto simp: set_insort_key)

lemma store_inv_insert_or_replace:
  assumes "store_inv rows" "p \<notin> snd ` set rows"
  shows "store_inv (insert_or_replace rows u p)"
proof -
  let ?xs = "filter (\<lambda>r. fst r \<noteq> u) rows"
  have d: "distinct (map fst ?xs)" "distinct (map snd ?xs)"
    using assms(1) by (simp_all add: store_inv_def distinct_map_filter)
  have "u \<notin> fst ` set ?xs" by auto
  moreover have "p \<notin> snd ` set ?xs" using assms(2) by auto
  ultimately show ?thesis
    using d by (simp add: store_inv_def insert_or_replace_def distinct_map_insort_key)
qed

lemma assign_file_store_inv:
  assumes "store_inv (assigned_files s)"
  shows "store_inv (assigned_files (snd (assign_file file_path user dm s)))"
proof (cases "select_user_id (assigned_files s) file_path")
  case None
  then have "file_path \<notin> snd ` set (assigned_files s)" by (simp add: select_user_id_None)
  then have "store_inv (insert_or_replace (assigned_files s) user file_path)"
    using assms by (intro store_inv_insert_or_replace)
  then show ?thesis
    using None by (auto simp: assign_file_def Let_def split: option.splits node.splits delivery.splits)
next
  case (Some u)
  then show ?thesis using assms by (simp add: assign_file_def)
qed

lemma submit_file_store_inv:
  assumes "store_inv (assigned_files s)"
  shows "store_inv (assigned_files (snd (submit_file author uploaded_file serialized_path s)))"
proof -
  have "store_inv (delete_file_path (assigned_files s) serialized_path)"
    using assms by (simp add: store_inv_def delete_file_path_def distinct_map_filter)
  then show ?thesis
    using assms
    by (auto simp: submit_file_def Let_def split: option.splits sum.splits prod.splits if_splits)
qed

section \<open>Trees, catalog and completion\<close>

text \<open>A string is equal to none of the ancestors of a path, so the model catalog is
  empty on every tree.\<close>

lemma py_in_str_paths: "\<not> py_in (PyStr s) (map PyPath ps)"
  by (induction ps) (simp_all add: py_in_def)

lemma get_models_empty: "get_models location rootdir = []"
  by (simp add: get_models_def py_in_str_paths)

text \<open>In a well-formed tree \<open>rglob\<close> lists exactly the nodes that \<open>lookup\<close> finds
  below the root, so the completion check is about every file of the tree.\<close>

lemma lookup_Nil [simp]: "lookup t [] = Some t"
  by (cases t) simp_all














section \<open>The claims\<close>

text \<open>
  C1, as stated, fails: for an original of 16 by 16 and a submission of 48 by 32 the
  image transform does not produce an image of 48 by 32.
\<close>

theorem transform_48x32_is_not_kept:
  "process_image (Picture 48 32) (Some (File (Picture 16 16))) \<noteq> Inr (Picture 48 32)"
  by code_simp

text \<open>
  C1, amended: for an original of 16 by 16 and a submission of 48 by 32 both multiples
  are 2, the smaller of the two scale-up ratios (3 along x, 2 along y), and the image
  transform produces an image of 32 by 32.
\<close>

theorem transform_48x32:
  "multiples 16 16 48 32 = (2, 2) \<and>
   process_image (Picture 48 32) (Some (File (Picture 16 16))) = Inr (Picture 32 32)"
  by code_simp




text \<open>
  C3, as stated, fails: user 5 is assigned \<open>a.png\<close> and the delivery raises
  \<open>Forbidden\<close>; afterwards \<open>a.png\<close> still has user 5 as its claimant and is missing
  from the next candidate set.
\<close>

theorem failed_delivery_is_not_released:
  "select_user_id
     (assigned_files (snd (assign_file [''a.png''] 5 Forbidden example_pack))) [''a.png'']
     = Some 5 \<and>
   [''a.png''] \<notin> set (not_taken
     (get_textures (original_assets (snd (assign_file [''a.png''] 5 Forbidden example_pack))))
     (assigned_files (snd (assign_file [''a.png''] 5 Forbidden example_pack))))"
  by code_simp

text \<open>
  C3, amended: whenever the delivery of an assigned asset fails, the claim record
  written just before is not rolled back: the asset has this user as its claimant
  afterwards and it is not in the next candidate set.
\<close>

theorem delivery_failure_keeps_claim:
  assumes "select_user_id (assigned_files s) file_path = None"
    and "lookup (original_assets s) file_path = Some (File m)"
    and "dm \<noteq> Delivered"
  shows "select_user_id (assigned_files (snd (assign_file file_path user dm s))) file_path
           = Some user
       \<and> file_path \<notin> set (not_taken resource_gen
             (assigned_files (snd (assign_file file_path user dm s))))"
proof -
  let ?rows = "insert_or_replace (assigned_files s) user file_path"
  have s': "snd (assign_file file_path user dm s) = s\<lparr>assigned_files := ?rows\<rparr>"
    using assms by (cases dm; simp add: assign_file_def)
  have mem: "(user, file_path) \<in> set ?rows" by (simp add: set_insert_or_replace)
  have "\<And>v. (v, file_path) \<in> set ?rows \<Longrightarrow> v = user"
    using assms(1) by (auto simp: set_insert_or_replace select_user_id_None rev_image_eqI)
  then have sel: "select_user_id ?rows file_path = Some user"
    using mem select_user_id_Some[of ?rows file_path] select_user_id_None[of ?rows file_path]
    by (cases "select_user_id ?rows file_path") force+
  have "file_path \<in> set (select_file_paths ?rows)"
    using mem by (force simp: select_file_paths_def)
  then have nt: "file_path \<notin> set (not_taken resource_gen ?rows)"
    by (simp add: not_taken_def)
  show ?thesis using sel nt by (simp add: s')
qed

theorem delivery_failure_keeps_claim_witness:
  "select_user_id (assigned_files example_pack) [''a.png''] = None
   \<and> lookup (original_assets example_pack) [''a.png''] = Some (File (Picture 16 16))
   \<and> Forbidden \<noteq> Delivered
   \<and> select_user_id
        (assigned_files (snd (assign_file [''a.png''] 5 Forbidden example_pack))) [''a.png'']
       = Some 5
   \<and> [''a.png''] \<notin> set (not_taken [[''a.png''], [''b.png'']]
        (assigned_files (snd (assign_file [''a.png''] 5 Forbidden example_pack))))"
proof -
  have h1: "select_user_id (assigned_files example_pack) [''a.png''] = None"
    by (simp add: example_pack_def select_user_id_def)
  have h2: "lookup (original_assets example_pack) [''a.png''] = Some (File (Picture 16 16))"
    by (simp add: example_pack_def)
  have h3: "Forbidden \<noteq> Delivered" by simp
  show ?thesis
    using delivery_failure_keeps_claim[OF h1 h2 h3, of 5 "[[''a.png''], [''b.png'']]"] h1 h2
    by simp
qed

text \<open>
  C4: a claim request on an asset path that already has a record in the assignment
  store reports a claimant recorded for that path and returns the pack, the store
  included, as it was; and whenever the request changes the store, no record referenced
  the path before.
\<close>

theorem claim_conflict:
  "((v, file_path) \<in> set (assigned_files s) \<longrightarrow>
      (\<exists>u. (u, file_path) \<in> set (assigned_files s) \<and>
           assign_file file_path user dm s = (AlreadyAssigned u, s)))
   \<and> (assigned_files (snd (assign_file file_path user dm s)) \<noteq> assigned_files s \<longrightarrow>
        file_path \<notin> snd ` set (assigned_files s))"
proof (intro conjI impI)
  assume a: "(v, file_path) \<in> set (assigned_files s)"
  have "file_path \<in> snd ` set (assigned_files s)"
    using a by force
  then have "select_user_id (assigned_files s) file_path \<noteq> None"
    by (simp add: select_user_id_None)
  then obtain u where u: "select_user_id (assigned_files s) file_path = Some u" by blast
  then have "(u, file_path) \<in> set (assigned_files s)" by (rule select_user_id_Some)
  moreover have "assign_file file_path user dm s = (AlreadyAssigned u, s)"
    by (simp add: assign_file_def u)
  ultimately show "\<exists>u. (u, file_path) \<in> set (assigned_files s) \<and>
           assign_file file_path user dm s = (AlreadyAssigned u, s)" by blast
next
  assume "assigned_files (snd (assign_file file_path user dm s)) \<noteq> assigned_files s"
  then have "select_user_id (assigned_files s) file_path = None"
    by (cases "select_user_id (assigned_files s) file_path") (auto simp: assign_file_def)
  then show "file_path \<notin> snd ` set (assigned_files s)"
    by (simp add: select_user_id_None)
qed

theorem claim_conflict_witness:
  "(7, [''b.png'']) \<in> set (assigned_files example_pack)
   \<and> assign_file [''b.png''] 5 Delivered example_pack = (AlreadyAssigned 7, example_pack)
   \<and> assigned_files (snd (assign_file [''a.png''] 5 Delivered example_pack))
       \<noteq> assigned_files example_pack
   \<and> [''a.png''] \<notin> snd ` set (assigned_files example_pack)"
proof -
  have h: "(7, [''b.png'']) \<in> set (assigned_files example_pack)"
    by (simp add: example_pack_def)
  have g: "assigned_files (snd (assign_file [''a.png''] 5 Delivered example_pack))
           \<noteq> assigned_files example_pack"
    by (simp add: assign_file_def example_pack_def select_user_id_def insert_or_replace_def)
  from claim_conflict[of 7 "[''b.png'']" example_pack 5 Delivered] h
  obtain u where u: "(u, [''b.png'']) \<in> set (assigned_files example_pack)"
    "assign_file [''b.png''] 5 Delivered example_pack = (AlreadyAssigned u, example_pack)"
    by blast
  from u(1) have "u = 7" by (simp add: example_pack_def)
  with u(2) have c: "assign_file [''b.png''] 5 Delivered example_pack
                     = (AlreadyAssigned 7, example_pack)" by simp
  from claim_conflict[of 7 "[''a.png'']" example_pack 5 Delivered] g
  have d: "[''a.png''] \<notin> snd ` set (assigned_files example_pack)" by blast
  show ?thesis using h c g d by blast
qed

text \<open>
  C5: a user who holds the record of asset \<open>a\<close> and is assigned another, unclaimed asset
  \<open>b\<close> has the record of \<open>a\<close> overwritten: afterwards the store holds exactly one row
  of this user, which references \<open>b\<close>, no row references \<open>a\<close>, and \<open>a\<close> is back in the
  candidate set whenever the catalog lists it. The store is taken with one row per user
  and at most one row per asset path.
\<close>

theorem upsert_overwrites:
  assumes "store_inv (assigned_files s)"
    and "(user, a) \<in> set (assigned_files s)"
    and "select_user_id (assigned_files s) b = None"
    and "lookup (original_assets s) b = Some (File m)"
  shows "assign_file b user Delivered s =
           (FileAssigned, s\<lparr>assigned_files := insert_or_replace (assigned_files s) user b\<rparr>)
       \<and> filter (\<lambda>r. fst r = user) (insert_or_replace (assigned_files s) user b) = [(user, b)]
       \<and> a \<notin> snd ` set (insert_or_replace (assigned_files s) user b)
       \<and> select_user_id (insert_or_replace (assigned_files s) user b) a = None
       \<and> (a \<in> set resource_gen \<longrightarrow>
            a \<in> set (not_taken resource_gen (insert_or_replace (assigned_files s) user b)))"
proof -
  let ?rows = "insert_or_replace (assigned_files s) user b"
  have inv: "distinct (map fst (assigned_files s))" "distinct (map snd (assigned_files s))"
    using assms(1) by (simp_all add: store_inv_def)
  have 1: "assign_file b user Delivered s = (FileAssigned, s\<lparr>assigned_files := ?rows\<rparr>)"
    using assms by (simp add: assign_file_def)
  have 2: "filter (\<lambda>r. fst r = user) ?rows = [(user, b)]"
    by (rule rows_of_user)
  have ab: "a \<noteq> b"
    using assms(2,3) by (auto simp: select_user_id_None rev_image_eqI)
  have only: "\<And>v. (v, a) \<in> set (assigned_files s) \<Longrightarrow> v = user"
    using inv(2) assms(2) by (metis select_user_id_unique option.inject)
  have 3: "a \<notin> snd ` set ?rows"
    using ab only by (auto simp: set_insert_or_replace)
  then have 4: "select_user_id ?rows a = None" by (simp add: select_user_id_None)
  have 5: "a \<in> set resource_gen \<longrightarrow> a \<in> set (not_taken resource_gen ?rows)"
    using 3 by (simp add: not_taken_def select_file_paths_def)
  show ?thesis using 1 2 3 4 5 by blast
qed

theorem upsert_overwrites_witness:
  "store_inv (assigned_files example_pack)
   \<and> (7, [''b.png'']) \<in> set (assigned_files example_pack)
   \<and> select_user_id (assigned_files example_pack) [''a.png''] = None
   \<and> lookup (original_assets example_pack) [''a.png''] = Some (File (Picture 16 16))
   \<and> assign_file [''a.png''] 7 Delivered example_pack =
       (FileAssigned, example_pack\<lparr>assigned_files := [(7, [''a.png''])]\<rparr>)
   \<and> select_user_id [(7, [''a.png''])] [''b.png''] = None
   \<and> [''b.png''] \<in> set (not_taken [[''a.png''], [''b.png'']] [(7, [''a.png''])])"
proof -
  have h1: "store_inv (assigned_files example_pack)"
    by (simp add: example_pack_def store_inv_def)
  have h2: "(7, [''b.png'']) \<in> set (assigned_files example_pack)"
    by (simp add: example_pack_def)
  have h3: "select_user_id (assigned_files example_pack) [''a.png''] = None"
    by (simp add: example_pack_def select_user_id_def)
  have h4: "lookup (original_assets example_pack) [''a.png''] = Some (File (Picture 16 16))"
    by (simp add: example_pack_def)
  have r: "insert_or_replace (assigned_files example_pack) 7 [''a.png''] = [(7, [''a.png''])]"
    by (simp add: example_pack_def insert_or_replace_def)
  show ?thesis
    using upsert_overwrites[OF h1 h2 h3 h4, of "[[''a.png''], [''b.png'']]"] h1 h2 h3 h4
    by (simp add: r)
qed

text \<open>
  C6: a submission for an asset path whose claimant in the store is absent or is not the
  submitting user is answered with "This file is no longer assigned to you.", and the
  pack is returned as it was: \<open>original_assets\<close>, \<open>new_assets\<close> and the assignment store
  are unchanged.
\<close>

theorem stale_submission:
  assumes "select_user_id (assigned_files s) serialized_path \<noteq> Some author"
  shows "submit_file author uploaded_file serialized_path s = (NoLongerAssigned, s)"
  using assms by (simp add: submit_file_def split: option.splits)

theorem stale_submission_witness:
  "select_user_id (assigned_files example_pack) [''b.png''] \<noteq> Some 5 \<and>
   submit_file 5 \<lparr>content_type = Some ''image/png'', payload = Picture 48 32\<rparr>
     [''b.png''] example_pack = (NoLongerAssigned, example_pack)"
proof -
  have h: "select_user_id (assigned_files example_pack) [''b.png''] \<noteq> Some 5"
    by (simp add: example_pack_def select_user_id_def)
  show ?thesis
    using stale_submission[OF h, of "\<lparr>content_type = Some ''image/png'', payload = Picture 48 32\<rparr>"] h
    by simp
qed

text \<open>
  C7: an image submission by the claimant whose computed multiple is zero along an axis
  is answered with "Failed to submit file: height and width must be > 0", and the pack is
  returned as it was: nothing is written to \<open>new_assets\<close>, the original file is kept and
  the claim stays in the store. The exception of \<open>resize\<close> is caught inside
  \<open>submit_file\<close>.
\<close>

theorem zero_multiple_is_rejected:
  assumes "select_user_id (assigned_files s) serialized_path = Some author"
    and "content_type uploaded_file = Some ct" "startswith ct ''image''"
    and "payload uploaded_file = Picture w h"
    and "lookup (original_assets s) serialized_path = Some (File (Picture ox oy))"
    and "0 < ox" "0 < oy"
    and "fst (multiples (int ox) (int oy) (int w) (int h)) = 0
         \<or> snd (multiples (int ox) (int oy) (int w) (int h)) = 0"
  shows "submit_file author uploaded_file serialized_path s =
           (FailedToSubmit (ValueError ''height and width must be > 0''), s)"
proof -
  have "process_image (Picture w h) (Some (File (Picture ox oy))) =
          Inl (ValueError ''height and width must be > 0'')"
    using assms(6-8) by (auto simp: process_image_def resize_target_def resize_def)
  then have "save_uploaded_file uploaded_file serialized_path (original_assets s) (new_assets s) =
          Inl (ValueError ''height and width must be > 0'')"
    using assms(2-5) by (simp add: save_uploaded_file_def)
  then show ?thesis using assms(1) by (simp add: submit_file_def)
qed

theorem zero_multiple_is_rejected_witness:
  "select_user_id (assigned_files example_pack) [''b.png''] = Some 7
   \<and> startswith ''image/png'' ''image''
   \<and> lookup (original_assets example_pack) [''b.png''] = Some (File (Picture 16 16))
   \<and> multiples 16 16 8 32 = (0, 0)
   \<and> submit_file 7 \<lparr>content_type = Some ''image/png'', payload = Picture 8 32\<rparr>
        [''b.png''] example_pack =
       (FailedToSubmit (ValueError ''height and width must be > 0''), example_pack)"
proof -
  have h1: "select_user_id (assigned_files example_pack) [''b.png''] = Some 7"
    by (simp add: example_pack_def select_user_id_def)
  have h2: "content_type \<lparr>content_type = Some ''image/png'', payload = Picture 8 32\<rparr>
              = Some ''image/png''" by simp
  have h3: "startswith ''image/png'' ''image''" by (simp add: startswith_def)
  have h4: "payload \<lparr>content_type = Some ''image/png'', payload = Picture 8 32\<rparr>
              = Picture 8 32" by simp
  have h5: "lookup (original_assets example_pack) [''b.png''] = Some (File (Picture 16 16))"
    by (simp add: example_pack_def)
  have m: "multiples 16 16 8 32 = (0, 0)" by code_simp
  have h8: "fst (multiples (int 16) (int 16) (int 8) (int 32)) = 0
            \<or> snd (multiples (int 16) (int 16) (int 8) (int 32)) = 0"
    by (simp add: m)
  show ?thesis
    using zero_multiple_is_rejected[OF h1 h2 h3 h4 h5 _ _ h8] h1 h3 h5 m by simp
qed

text \<open>
  C8, at a tree that holds one \<open>.json\<close> file under a directory named \<open>models\<close>: the
  catalog of all files lists it and the model catalog is empty. The test
  \<open>"models" in path.parents\<close> compares a string with path objects and never succeeds.
\<close>

theorem get_models_misses_model:
  "get_resources model_tree = [[''assets'', ''minecraft'', ''models'', ''block'', ''stone.json'']]
   \<and> suffix [''assets'', ''minecraft'', ''models'', ''block'', ''stone.json''] = ''.json''
   \<and> get_models [''storage'', ''1'', ''original_assets''] model_tree = []"
  by code_simp

text \<open>
  C9: a submission with exactly the size of the original it replaces gets the multiple 1
  on both axes, and the image transform returns an image of the original's size.
\<close>

theorem roundtrip_identity:
  assumes "0 < ox" "0 < oy"
  shows "multiples (int ox) (int oy) (int ox) (int oy) = (1, 1) \<and>
         process_image (Picture ox oy) (Some (File (Picture ox oy))) = Inr (Picture ox oy)"
  using assms by (simp add: process_image_def resize_target_def resize_def multiples_same_size)

theorem roundtrip_identity_witness:
  "(0::nat) < 16 \<and> multiples 16 16 16 16 = (1, 1) \<and>
   process_image (Picture 16 16) (Some (File (Picture 16 16))) = Inr (Picture 16 16)"
  using roundtrip_identity[of 16 16] by simp

text \<open>
  C10, as stated, fails: for an original of 16 by 16 and a submission of 8 by 32 the
  multiple is 0, and the transform has no output of 0 by 0: \<open>resize\<close> raises.
\<close>

theorem zero_multiple_has_no_output:
  "shared_multiple 16 16 8 32 = 0 \<and>
   process_image (Picture 8 32) (Some (File (Picture 16 16))) =
     Inl (ValueError ''height and width must be > 0'')"
  by (simp add: shared_multiple_div) code_simp

text \<open>
  C10, amended: for an original of \<open>ox\<close> by \<open>oy\<close> and a submission of \<open>w\<close> by \<open>h\<close>
  pixels, all positive and below \<open>2 ^ 53\<close>, both axes get the one non-negative multiple
  \<open>k = floor (min (w / ox) (h / oy))\<close> and the size handed to \<open>resize\<close> is
  \<open>(k * ox, k * oy)\<close>, never a mixed per-axis multiple; when \<open>k\<close> is positive the output
  has exactly that size, and when \<open>k\<close> is zero the transform raises and has no output.
\<close>

theorem one_multiple_for_both_axes:
  assumes "0 < ox" "0 < oy" "0 < w" "0 < h"
    and "ox < 2 ^ 53" "oy < 2 ^ 53" "w < 2 ^ 53" "h < 2 ^ 53"
  shows "0 \<le> shared_multiple ox oy w h
       \<and> multiples (int ox) (int oy) (int w) (int h) =
           (shared_multiple ox oy w h, shared_multiple ox oy w h)
       \<and> resize_target (int ox) (int oy) (int w) (int h) =
           (shared_multiple ox oy w h * int ox, shared_multiple ox oy w h * int oy)
       \<and> process_image (Picture w h) (Some (File (Picture ox oy))) =
           (if shared_multiple ox oy w h = 0
            then Inl (ValueError ''height and width must be > 0'')
            else Inr (Picture (nat (shared_multiple ox oy w h) * ox)
                              (nat (shared_multiple ox oy w h) * oy)))"
proof -
  let ?k = "shared_multiple ox oy w h"
  have b: "int ox < 2 ^ 53" "int oy < 2 ^ 53" "int w < 2 ^ 53" "int h < 2 ^ 53"
    using assms(5-8) by (metis of_nat_less_iff of_nat_numeral of_nat_power)+
  have m: "multiples (int ox) (int oy) (int w) (int h) = (?k, ?k)"
    unfolding shared_multiple_div using assms(1-4) b by (intro multiples_eq) auto
  have k0: "0 \<le> ?k"
    unfolding shared_multiple_div using assms by (simp add: pos_imp_zdiv_nonneg_iff)
  have t: "resize_target (int ox) (int oy) (int w) (int h) = (?k * int ox, ?k * int oy)"
    by (simp add: resize_target_def m)
  have p: "process_image (Picture w h) (Some (File (Picture ox oy))) =
           (if ?k = 0 then Inl (ValueError ''height and width must be > 0'')
            else Inr (Picture (nat ?k * ox) (nat ?k * oy)))"
  proof (cases "?k = 0")
    case True
    then show ?thesis using assms(1,2) by (simp add: process_image_def t resize_def)
  next
    case False
    with k0 have k1: "1 \<le> ?k" by simp
    have "1 * 1 \<le> ?k * int ox" using k1 assms(1) by (intro mult_mono) auto
    moreover have "1 * 1 \<le> ?k * int oy" using k1 assms(2) by (intro mult_mono) auto
    ultimately have "1 \<le> ?k * int ox" "1 \<le> ?k * int oy" by simp_all
    moreover have "nat (?k * int ox) = nat ?k * ox" "nat (?k * int oy) = nat ?k * oy"
      using k0 by (simp_all add: nat_mult_distrib)
    ultimately show ?thesis
      using assms(1,2) False by (simp add: process_image_def t resize_def)
  qed
  show ?thesis using k0 m t p by simp
qed

theorem one_multiple_for_both_axes_witness:
  "(0::nat) < 16 \<and> (0::nat) < 48 \<and> (0::nat) < 32 \<and> (48::nat) < 2 ^ 53
   \<and> shared_multiple 16 16 48 32 = 2
   \<and> multiples 16 16 48 32 = (2, 2)
   \<and> resize_target 16 16 48 32 = (32, 32)
   \<and> process_image (Picture 48 32) (Some (File (Picture 16 16))) = Inr (Picture 32 32)"
proof -
  have k: "shared_multiple 16 16 48 32 = 2" by (simp add: shared_multiple_div)
  show ?thesis
    using one_multiple_for_both_axes[of 16 16 48 32] by (simp add: k)
qed

end
